theory Spec2Isabelle
  imports Main
begin

section \<open>Marker files and the environment of a process\<close>

text \<open>
  The subsystem is the static class \<open>QETFileLock\<close> of
  \<open>sources/utils/qetfilelock.cpp\<close>: a process-wide table \<open>s_locks\<close> from canonical
  document paths to lock handles, and four operations on it. The handles are Qt's
  \<open>QLockFile\<close>; each stands for a sidecar file \<open><canonical>.lock\<close> that records the
  holder's process id, host name and application name.
\<close>

record holder_info =
  holder_pid :: int
  holder_hostname :: string
  holder_app_id :: string

text \<open>
  A marker file on disk: its parsed content (\<open>None\<close> when the content cannot be parsed
  into the three fields) and its modification time in milliseconds.
\<close>

record marker_file =
  holder :: "holder_info option"
  mtime :: int

type_synonym disk = "string \<rightharpoonup> marker_file"

text \<open>
  What a process sees of its platform: the canonicalisation of paths
  (\<open>QFileInfo::canonicalFilePath\<close>, the empty string on failure), its own identity, which
  process ids are alive on the local host, the clock, and where the file system lets it
  create and delete files.
\<close>

record env =
  canonicalFilePath :: "string \<Rightarrow> string"
  applicationPid :: int
  machineHostName :: string
  applicationName :: string
  isProcessRunning :: "int \<Rightarrow> bool"
  currentTime :: int
  writable :: "string \<Rightarrow> bool"

datatype LockError = InvalidPath | AlreadyLocked | IoFailure | Corrupt | NotLocked

definition own_info :: "env \<Rightarrow> holder_info" where
  "own_info e =
     \<lparr>holder_pid = applicationPid e,
      holder_hostname = machineHostName e,
      holder_app_id = applicationName e\<rparr>"

section \<open>The lock handle (LockMarker)\<close>

text \<open>
  The source builds its locks from \<open>QLockFile\<close>, a class of the Qt library whose
  implementation is not under \<open>src/\<close>; it is the LockMarker of the spec. Each
  definition of this section models one member of the class from sections 4.1 and 9 of
  the spec. Where the spec is silent the model follows the documented behaviour of the
  class: a stale time of \<open>0\<close> switches the age heuristic off, a fresh handle has the
  stale time of 30 seconds, and releasing or destroying a handle that holds no lock does
  nothing.
\<close>

text \<open>
  Modelled from the spec: the class \<open>QLockFile\<close> (its declaration is missing). The
  handle carries what the source sets and tests on it: the path of the marker, the stale
  time given to \<open>setStaleLockTime\<close>, and whether the handle holds the lock.
\<close>

record QLockFile =
  lf_fileName :: string
  lf_staleLockTime :: int
  lf_isLocked :: bool

text \<open>
  Modelled from the spec: the constructor \<open>QLockFile(path)\<close> (missing). It touches no
  file; the new handle holds no lock.
\<close>

definition QLockFile_new :: "string \<Rightarrow> QLockFile" where
  "QLockFile_new path =
     \<lparr>lf_fileName = path, lf_staleLockTime = 30000, lf_isLocked = False\<rparr>"

text \<open>
  Modelled from the spec: \<open>QLockFile::setStaleLockTime\<close> (missing), the configured
  threshold of the age heuristic, in milliseconds.
\<close>

definition setStaleLockTime :: "int \<Rightarrow> QLockFile \<Rightarrow> QLockFile" where
  "setStaleLockTime t lf = lf\<lparr>lf_staleLockTime := t\<rparr>"

text \<open>
  Modelled from the spec: the atomic exclusive create of the marker inside
  \<open>QLockFile::tryLock\<close> (missing). It fails, and does not overwrite, when the marker
  exists; it fails with an I/O error where the file system refuses the creation;
  otherwise it writes the holder metadata of the caller.
\<close>

definition create_exclusive :: "env \<Rightarrow> string \<Rightarrow> disk \<Rightarrow> LockError + disk" where
  "create_exclusive e path d =
     (if d path \<noteq> None then Inl AlreadyLocked
      else if \<not> writable e path then Inl IoFailure
      else Inr (d(path \<mapsto> \<lparr>holder = Some (own_info e), mtime = currentTime e\<rparr>)))"

text \<open>
  Modelled from the spec: the deletion of a marker inside \<open>QLockFile\<close> (missing). It
  fails where the file system refuses it; deleting a marker that is already gone
  succeeds.
\<close>

definition remove_file :: "env \<Rightarrow> string \<Rightarrow> disk \<Rightarrow> LockError + disk" where
  "remove_file e path d =
     (if \<not> writable e path then Inl IoFailure else Inr (d(path := None)))"

text \<open>
  Modelled from the spec: the age heuristic of \<open>QLockFile\<close> (missing). A marker older
  than the configured stale time is stale. The stale time \<open>0\<close> switches the heuristic
  off: the class documents it as the setting for a resource that is protected over a
  long time, where the age of a marker says nothing about its holder.
\<close>

definition age_stale :: "env \<Rightarrow> QLockFile \<Rightarrow> marker_file \<Rightarrow> bool" where
  "age_stale e lf f =
     (0 < lf_staleLockTime lf \<and> lf_staleLockTime lf < currentTime e - mtime f)"

text \<open>
  Modelled from the spec: the stale detection of \<open>QLockFile\<close> (missing). When the
  marker records the local host name, it is stale exactly when the recorded process id
  is not alive; when it records another host name, only the age heuristic applies. A
  marker that cannot be parsed is treated as acquirable (section 3 of the spec).
\<close>

definition is_stale :: "env \<Rightarrow> QLockFile \<Rightarrow> disk \<Rightarrow> bool" where
  "is_stale e lf d =
     (case d (lf_fileName lf) of
        None \<Rightarrow> False
      | Some f \<Rightarrow>
          (case holder f of
             None \<Rightarrow> True
           | Some i \<Rightarrow>
               if holder_hostname i = machineHostName e
               then \<not> isProcessRunning e (holder_pid i)
               else age_stale e lf f))"

text \<open>
  Modelled from the spec: \<open>QLockFile::tryLock()\<close> without a timeout (missing), the
  spec's \<open>create_and_acquire\<close>. It tries the exclusive create; on a conflict it
  decides staleness, deletes a stale marker and retries the create once. The result is
  the acquired handle or the error, together with the disk as the call leaves it.
\<close>

definition QLockFile_tryLock ::
  "env \<Rightarrow> QLockFile \<Rightarrow> disk \<Rightarrow> (LockError + QLockFile) \<times> disk" where
  "QLockFile_tryLock e lf d =
     (case create_exclusive e (lf_fileName lf) d of
        Inr d' \<Rightarrow> (Inr (lf\<lparr>lf_isLocked := True\<rparr>), d')
      | Inl IoFailure \<Rightarrow> (Inl IoFailure, d)
      | Inl err \<Rightarrow>
          if is_stale e lf d then
            (case remove_file e (lf_fileName lf) d of
               Inl err1 \<Rightarrow> (Inl err1, d)
             | Inr d1 \<Rightarrow>
                 (case create_exclusive e (lf_fileName lf) d1 of
                    Inr d2 \<Rightarrow> (Inr (lf\<lparr>lf_isLocked := True\<rparr>), d2)
                  | Inl err2 \<Rightarrow> (Inl err2, d1)))
          else (Inl AlreadyLocked, d))"

text \<open>
  Modelled from the spec: \<open>QLockFile::unlock()\<close> (missing), the spec's \<open>release\<close>.
  It deletes the marker of a handle that holds the lock; a deletion the file system
  refuses leaves the marker where it is. On a handle that holds no lock it does nothing.
\<close>

definition QLockFile_unlock :: "env \<Rightarrow> QLockFile \<Rightarrow> disk \<Rightarrow> QLockFile \<times> disk" where
  "QLockFile_unlock e lf d =
     (if \<not> lf_isLocked lf then (lf, d)
      else (case remove_file e (lf_fileName lf) d of
              Inl err \<Rightarrow> (lf\<lparr>lf_isLocked := False\<rparr>, d)
            | Inr d' \<Rightarrow> (lf\<lparr>lf_isLocked := False\<rparr>, d')))"

text \<open>
  Modelled from the spec: the destructor of \<open>QLockFile\<close> (missing), run by
  \<open>delete lock\<close> and at the end of a local handle's scope. It releases.
\<close>

definition QLockFile_delete :: "env \<Rightarrow> QLockFile \<Rightarrow> disk \<Rightarrow> disk" where
  "QLockFile_delete e lf d = snd (QLockFile_unlock e lf d)"

text \<open>
  Modelled from the spec: \<open>QLockFile::getLockInfo\<close> (missing), the spec's
  \<open>read_holder_info\<close>. It reads the marker without acquiring it: no marker is
  \<open>NotLocked\<close>, a marker that cannot be parsed is \<open>Corrupt\<close>.
\<close>

definition QLockFile_getLockInfo :: "QLockFile \<Rightarrow> disk \<Rightarrow> LockError + holder_info" where
  "QLockFile_getLockInfo lf d =
     (case d (lf_fileName lf) of
        None \<Rightarrow> Inl NotLocked
      | Some f \<Rightarrow> (case holder f of None \<Rightarrow> Inl Corrupt | Some i \<Rightarrow> Inr i))"

section \<open>The registry (QETFileLock)\<close>

text \<open>
  The state the four operations work on: the static table \<open>s_locks\<close> of the process
  and the marker files on disk.
\<close>

record state =
  s_locks :: "string \<rightharpoonup> QLockFile"
  files :: disk

definition contains :: "('k \<rightharpoonup> 'v) \<Rightarrow> 'k \<Rightarrow> bool" where
  "contains m k = (m k \<noteq> None)"

text \<open>\<open>QETFileLock::tryLock\<close>: the returned flag and the state after the call.\<close>

definition tryLock :: "env \<Rightarrow> string \<Rightarrow> state \<Rightarrow> bool \<times> state" where
  "tryLock e filepath st =
     (let canonical = canonicalFilePath e filepath in
      if canonical = [] then (False, st)
      else if contains (s_locks st) canonical then (True, st)
      else
        let lock_path = canonical @ ''.lock'';
            lock = setStaleLockTime 0 (QLockFile_new lock_path)
        in (case QLockFile_tryLock e lock (files st) of
              (Inr lock', d') \<Rightarrow>
                (True, st\<lparr>s_locks := (s_locks st)(canonical \<mapsto> lock'), files := d'\<rparr>)
            | (Inl err, d') \<Rightarrow>
                (False, st\<lparr>files := QLockFile_delete e lock d'\<rparr>)))"

text \<open>\<open>QETFileLock::unlock\<close>.\<close>

definition unlock :: "env \<Rightarrow> string \<Rightarrow> state \<Rightarrow> state" where
  "unlock e filepath st =
     (let canonical = canonicalFilePath e filepath in
      if canonical = [] then st
      else if contains (s_locks st) canonical then
        (case s_locks st canonical of
           None \<Rightarrow> st
         | Some lock \<Rightarrow>
             (let (lock', d') = QLockFile_unlock e lock (files st)
              in st\<lparr>s_locks := (s_locks st)(canonical := None),
                    files := QLockFile_delete e lock' d'\<rparr>))
      else st)"

text \<open>\<open>QETFileLock::isLocked\<close>: a lookup in the table, with no check of the canonical path.\<close>

definition isLocked :: "env \<Rightarrow> string \<Rightarrow> state \<Rightarrow> bool" where
  "isLocked e filepath st =
     (let canonical = canonicalFilePath e filepath in contains (s_locks st) canonical)"

text \<open>
  \<open>QETFileLock::lockInfo\<close>. The three out-parameters are passed in with the values they
  have before the call and returned with the values they have after it; the state is
  threaded through the construction, the query and the destruction of the local handle.
\<close>

definition lockInfo ::
  "env \<Rightarrow> string \<Rightarrow> holder_info \<Rightarrow> state \<Rightarrow> bool \<times> holder_info \<times> state" where
  "lockInfo e filepath out st =
     (let canonical = canonicalFilePath e filepath in
      if canonical = [] then (False, out, st)
      else
        let lock_path = canonical @ ''.lock'';
            lock = QLockFile_new lock_path;
            st' = st\<lparr>files := QLockFile_delete e lock (files st)\<rparr>
        in (case QLockFile_getLockInfo lock (files st) of
              Inr i \<Rightarrow> (True, i, st')
            | Inl err \<Rightarrow> (False, out, st')))"

section \<open>States a process can reach\<close>

text \<open>
  The handle \<open>tryLock\<close> builds before it asks for the lock (lines 43 to 45 of the
  source), the handle it stores in the table on success, and the marker it leaves on
  disk.
\<close>

definition fresh_handle :: "string \<Rightarrow> QLockFile" where
  "fresh_handle canonical = setStaleLockTime 0 (QLockFile_new (canonical @ ''.lock''))"

definition held_handle :: "string \<Rightarrow> QLockFile" where
  "held_handle canonical =
     \<lparr>lf_fileName = canonical @ ''.lock'', lf_staleLockTime = 0, lf_isLocked = True\<rparr>"

definition own_marker :: "env \<Rightarrow> marker_file" where
  "own_marker e = \<lparr>holder = Some (own_info e), mtime = currentTime e\<rparr>"

text \<open>
  The states of one process: it starts with an empty table on any disk and calls the
  operations of the registry in any order, on any paths.
\<close>

inductive reachable :: "env \<Rightarrow> state \<Rightarrow> bool" for e :: env where
  reachable_init: "reachable e \<lparr>s_locks = Map.empty, files = d\<rparr>"
| reachable_tryLock: "reachable e st \<Longrightarrow> reachable e (snd (tryLock e p st))"
| reachable_unlock: "reachable e st \<Longrightarrow> reachable e (unlock e p st)"
| reachable_lockInfo: "reachable e st \<Longrightarrow> reachable e (snd (snd (lockInfo e p out st)))"

text \<open>
  What every entry of the table stands for: a non-empty canonical key, the handle of
  its marker, and on disk a marker that records this process.
\<close>

definition consistent :: "env \<Rightarrow> state \<Rightarrow> bool" where
  "consistent e st =
     (\<forall>k lf. s_locks st k = Some lf \<longrightarrow>
        k \<noteq> [] \<and> lf = held_handle k \<and> writable e (k @ ''.lock'') \<and>
        (\<exists>f. files st (k @ ''.lock'') = Some f \<and> holder f = Some (own_info e)))"

subsection \<open>A process in a changing environment\<close>

text \<open>
  Between two calls of a process its environment may change: documents are created,
  deleted or renamed, so that paths canonicalise differently or not at all; permissions
  and the clock change. The process stays the same: its process id, host name and
  application name, the identity \<open>me\<close> it writes into its markers. These are the states
  it reaches from the empty table when every call sees an environment of its own.
\<close>

inductive reachable_env :: "holder_info \<Rightarrow> state \<Rightarrow> bool" for me :: holder_info where
  env_init: "reachable_env me \<lparr>s_locks = Map.empty, files = d\<rparr>"
| env_tryLock: "reachable_env me st \<Longrightarrow> own_info e = me \<Longrightarrow>
    reachable_env me (snd (tryLock e p st))"
| env_unlock: "reachable_env me st \<Longrightarrow> own_info e = me \<Longrightarrow>
    reachable_env me (unlock e p st)"
| env_lockInfo: "reachable_env me st \<Longrightarrow> own_info e = me \<Longrightarrow>
    reachable_env me (snd (snd (lockInfo e p out st)))"

text \<open>
  What every entry of the table stands for in such a state: a non-empty canonical key,
  the handle of its marker, and on disk a marker that records the process.
\<close>

definition marked :: "holder_info \<Rightarrow> state \<Rightarrow> bool" where
  "marked me st =
     (\<forall>k lf. s_locks st k = Some lf \<longrightarrow>
        k \<noteq> [] \<and> lf = held_handle k \<and>
        (\<exists>f. files st (k @ ''.lock'') = Some f \<and> holder f = Some me))"

subsection \<open>Two registries on one file system\<close>

text \<open>
  Two processes \<open>A\<close> and \<open>B\<close>, each with its own table, work on the same marker files;
  their calls interleave in any order.
\<close>

record system =
  table_A :: "string \<rightharpoonup> QLockFile"
  table_B :: "string \<rightharpoonup> QLockFile"
  shared :: disk

definition view_A :: "system \<Rightarrow> state" where
  "view_A s = \<lparr>s_locks = table_A s, files = shared s\<rparr>"

definition view_B :: "system \<Rightarrow> state" where
  "view_B s = \<lparr>s_locks = table_B s, files = shared s\<rparr>"

definition put_A :: "state \<Rightarrow> system \<Rightarrow> system" where
  "put_A st s = s\<lparr>table_A := s_locks st, shared := files st\<rparr>"

definition put_B :: "state \<Rightarrow> system \<Rightarrow> system" where
  "put_B st s = s\<lparr>table_B := s_locks st, shared := files st\<rparr>"

inductive sys_reachable :: "env \<Rightarrow> env \<Rightarrow> system \<Rightarrow> bool"
  for eA :: env and eB :: env where
  sys_init: "sys_reachable eA eB \<lparr>table_A = Map.empty, table_B = Map.empty, shared = d\<rparr>"
| A_tryLock: "sys_reachable eA eB s \<Longrightarrow>
    sys_reachable eA eB (put_A (snd (tryLock eA p (view_A s))) s)"
| A_unlock: "sys_reachable eA eB s \<Longrightarrow>
    sys_reachable eA eB (put_A (unlock eA p (view_A s)) s)"
| B_tryLock: "sys_reachable eA eB s \<Longrightarrow>
    sys_reachable eA eB (put_B (snd (tryLock eB p (view_B s))) s)"
| B_unlock: "sys_reachable eA eB s \<Longrightarrow>
    sys_reachable eA eB (put_B (unlock eB p (view_B s)) s)"
| A_lockInfo: "sys_reachable eA eB s \<Longrightarrow>
    sys_reachable eA eB (put_A (snd (snd (lockInfo eA p out (view_A s)))) s)"
| B_lockInfo: "sys_reachable eA eB s \<Longrightarrow>
    sys_reachable eA eB (put_B (snd (snd (lockInfo eB p out (view_B s)))) s)"

text \<open>
  Process \<open>e\<close> finds the process \<open>e'\<close> alive whenever the two run on the same host: a
  marker written by \<open>e'\<close> names a live process id there.
\<close>

definition sees_alive :: "env \<Rightarrow> env \<Rightarrow> bool" where
  "sees_alive e e' =
     (if machineHostName e' = machineHostName e
      then isProcessRunning e (applicationPid e') else True)"

definition exclusive ::
  "env \<Rightarrow> env \<Rightarrow> (string \<rightharpoonup> QLockFile) \<Rightarrow> (string \<rightharpoonup> QLockFile) \<Rightarrow> disk \<Rightarrow> bool" where
  "exclusive e1 e2 t1 t2 d =
     (consistent e1 \<lparr>s_locks = t1, files = d\<rparr> \<and>
      consistent e2 \<lparr>s_locks = t2, files = d\<rparr> \<and>
      (\<forall>k. \<not> (contains t1 k \<and> contains t2 k)))"

section \<open>Example processes and disks\<close>

definition canon :: "string \<Rightarrow> string" where
  "canon p = (if p = ''a.qet'' \<or> p = ''/d/a.qet'' then ''/d/a.qet'' else [])"

definition proc_A :: env where
  "proc_A =
     \<lparr>canonicalFilePath = canon, applicationPid = 100, machineHostName = ''alpha'',
      applicationName = ''qet'', isProcessRunning = (\<lambda>n. n = 100 \<or> n = 200),
      currentTime = 100000000, writable = (\<lambda>p. True)\<rparr>"

definition proc_B :: env where
  "proc_B =
     \<lparr>canonicalFilePath = canon, applicationPid = 200, machineHostName = ''alpha'',
      applicationName = ''qet'', isProcessRunning = (\<lambda>n. n = 100 \<or> n = 200),
      currentTime = 100000000, writable = (\<lambda>p. True)\<rparr>"

definition no_locks :: state where
  "no_locks = \<lparr>s_locks = Map.empty, files = Map.empty\<rparr>"

definition sys0 :: system where
  "sys0 = \<lparr>table_A = Map.empty, table_B = Map.empty, shared = Map.empty\<rparr>"

definition sys1 :: system where
  "sys1 = put_A (snd (tryLock proc_A ''a.qet'' (view_A sys0))) sys0"

definition st_held :: state where
  "st_held = snd (tryLock proc_A ''a.qet'' no_locks)"

definition stale_marker :: marker_file where
  "stale_marker =
     \<lparr>holder = Some \<lparr>holder_pid = 999999, holder_hostname = ''alpha'', holder_app_id = ''qet''\<rparr>,
      mtime = 0\<rparr>"

definition st_stale :: state where
  "st_stale = \<lparr>s_locks = Map.empty, files = [''/d/a.qet.lock'' \<mapsto> stale_marker]\<rparr>"

definition foreign_marker :: marker_file where
  "foreign_marker =
     \<lparr>holder = Some \<lparr>holder_pid = 7, holder_hostname = ''beta'', holder_app_id = ''qet''\<rparr>,
      mtime = 0\<rparr>"

definition st_foreign :: state where
  "st_foreign = \<lparr>s_locks = Map.empty, files = [''/d/a.qet.lock'' \<mapsto> foreign_marker]\<rparr>"

definition out0 :: holder_info where
  "out0 = \<lparr>holder_pid = 0, holder_hostname = [], holder_app_id = []\<rparr>"

definition proc_ro :: env where
  "proc_ro = proc_A\<lparr>writable := (\<lambda>p. False)\<rparr>"

text \<open>The process \<open>proc_A\<close> after every document has been deleted.\<close>

definition proc_gone :: env where
  "proc_gone = proc_A\<lparr>canonicalFilePath := (\<lambda>p. [])\<rparr>"

section \<open>Properties of the lock handle and of single calls\<close>

lemma QLockFile_delete_unlocked:
  "\<not> lf_isLocked lf \<Longrightarrow> QLockFile_delete e lf d = d"
  by (simp add: QLockFile_delete_def QLockFile_unlock_def)

lemma QLockFile_tryLock_Inr:
  assumes "QLockFile_tryLock e lf d = (Inr lf', d')"
  shows "lf' = lf\<lparr>lf_isLocked := True\<rparr>"
    and "d' = d(lf_fileName lf \<mapsto> \<lparr>holder = Some (own_info e), mtime = currentTime e\<rparr>)"
    and "writable e (lf_fileName lf)"
    and "d (lf_fileName lf) = None \<or> is_stale e lf d"
  using assms
  by (auto simp: QLockFile_tryLock_def create_exclusive_def remove_file_def
      split: sum.splits if_splits LockError.splits)

lemma QLockFile_tryLock_Inl:
  assumes "QLockFile_tryLock e lf d = (Inl err, d')"
  shows "d' = d"
    and "err = AlreadyLocked \<or> err = IoFailure"
  using assms
  by (auto simp: QLockFile_tryLock_def create_exclusive_def remove_file_def
      split: sum.splits if_splits LockError.splits)

lemma QLockFile_tryLock_absent:
  "d (lf_fileName lf) = None \<Longrightarrow> writable e (lf_fileName lf) \<Longrightarrow>
   QLockFile_tryLock e lf d =
     (Inr (lf\<lparr>lf_isLocked := True\<rparr>),
      d(lf_fileName lf \<mapsto> \<lparr>holder = Some (own_info e), mtime = currentTime e\<rparr>))"
  by (simp add: QLockFile_tryLock_def create_exclusive_def)

lemma QLockFile_tryLock_stale:
  "d (lf_fileName lf) \<noteq> None \<Longrightarrow> is_stale e lf d \<Longrightarrow> writable e (lf_fileName lf) \<Longrightarrow>
   QLockFile_tryLock e lf d =
     (Inr (lf\<lparr>lf_isLocked := True\<rparr>),
      d(lf_fileName lf \<mapsto> \<lparr>holder = Some (own_info e), mtime = currentTime e\<rparr>))"
  by (auto simp: QLockFile_tryLock_def create_exclusive_def remove_file_def)

lemma QLockFile_tryLock_live:
  "d (lf_fileName lf) \<noteq> None \<Longrightarrow> \<not> is_stale e lf d \<Longrightarrow>
   QLockFile_tryLock e lf d = (Inl AlreadyLocked, d)"
  by (auto simp: QLockFile_tryLock_def create_exclusive_def)

lemma QLockFile_tryLock_denied:
  "d (lf_fileName lf) = None \<Longrightarrow> \<not> writable e (lf_fileName lf) \<Longrightarrow>
   QLockFile_tryLock e lf d = (Inl IoFailure, d)"
  by (auto simp: QLockFile_tryLock_def create_exclusive_def)

lemma fresh_handle_simps [simp]:
  "lf_fileName (fresh_handle c) = c @ ''.lock''"
  "lf_staleLockTime (fresh_handle c) = 0"
  "\<not> lf_isLocked (fresh_handle c)"
  "(fresh_handle c)\<lparr>lf_isLocked := True\<rparr> = held_handle c"
  by (simp_all add: fresh_handle_def setStaleLockTime_def QLockFile_new_def held_handle_def)

lemma is_stale_fresh:
  "is_stale e (fresh_handle c) d =
     (\<exists>f. d (c @ ''.lock'') = Some f \<and>
        (holder f = None \<or>
         (\<exists>i. holder f = Some i \<and> holder_hostname i = machineHostName e \<and>
              \<not> isProcessRunning e (holder_pid i))))"
  by (auto simp: is_stale_def age_stale_def split: option.splits)

text \<open>The three ways a call of tryLock can end.\<close>

lemma tryLock_cases:
  assumes "tryLock e p st = (b, st')"
  obtains
    (failed) "\<not> b" "st' = st"
  | (held) "b" "st' = st" "canonicalFilePath e p \<noteq> []" "contains (s_locks st) (canonicalFilePath e p)"
  | (acquired) c where "b" "c = canonicalFilePath e p" "c \<noteq> []" "\<not> contains (s_locks st) c"
      "writable e (c @ ''.lock'')"
      "files st (c @ ''.lock'') = None \<or> is_stale e (fresh_handle c) (files st)"
      "st' = st\<lparr>s_locks := (s_locks st)(c \<mapsto> held_handle c),
                 files := (files st)(c @ ''.lock'' \<mapsto> own_marker e)\<rparr>"
proof -
  let ?c = "canonicalFilePath e p"
  show thesis
  proof (cases "?c = []")
    case True
    with assms failed show ?thesis by (simp add: tryLock_def)
  next
    case ne: False
    show ?thesis
    proof (cases "contains (s_locks st) ?c")
      case True
      with assms ne held show ?thesis by (simp add: tryLock_def)
    next
      case nc: False
      obtain r d' where r: "QLockFile_tryLock e (fresh_handle ?c) (files st) = (r, d')"
        by (cases "QLockFile_tryLock e (fresh_handle ?c) (files st)")
      show ?thesis
      proof (cases r)
        case (Inl err)
        with r have "d' = files st" by (simp add: QLockFile_tryLock_Inl(1))
        with assms ne nc r Inl have "\<not> b" "st' = st"
          by (simp_all add: tryLock_def fresh_handle_def [symmetric] QLockFile_delete_unlocked)
        then show ?thesis by (rule failed)
      next
        case (Inr lf')
        from r Inr have *: "QLockFile_tryLock e (fresh_handle ?c) (files st) = (Inr lf', d')"
          by simp
        note facts = QLockFile_tryLock_Inr [OF *]
        from assms ne nc * have "b"
          "st' = st\<lparr>s_locks := (s_locks st)(?c \<mapsto> lf'), files := d'\<rparr>"
          by (simp_all add: tryLock_def fresh_handle_def [symmetric])
        with facts ne nc show ?thesis
          by (intro acquired [of ?c]) (simp_all add: own_marker_def)
      qed
    qed
  qed
qed

lemma unlock_cases:
  assumes "unlock e p st = st'" "consistent e st"
  obtains
    (noop) "st' = st" "canonicalFilePath e p = [] \<or> \<not> contains (s_locks st) (canonicalFilePath e p)"
  | (released) c where "c = canonicalFilePath e p" "c \<noteq> []" "contains (s_locks st) c"
      "st' = st\<lparr>s_locks := (s_locks st)(c := None), files := (files st)(c @ ''.lock'' := None)\<rparr>"
proof -
  let ?c = "canonicalFilePath e p"
  show thesis
  proof (cases "?c = [] \<or> \<not> contains (s_locks st) ?c")
    case True
    with assms(1) have "st' = st" by (auto simp: unlock_def Let_def)
    from this True show ?thesis by (rule noop)
  next
    case False
    then obtain lf where lf: "s_locks st ?c = Some lf" by (auto simp: contains_def)
    with assms(2) have h: "lf = held_handle ?c" "writable e (?c @ ''.lock'')"
      by (auto simp: consistent_def)
    from False lf h assms(1)
    have "st' = st\<lparr>s_locks := (s_locks st)(?c := None), files := (files st)(?c @ ''.lock'' := None)\<rparr>"
      by (auto simp: unlock_def Let_def QLockFile_unlock_def remove_file_def held_handle_def
          QLockFile_delete_def)
    with False show ?thesis by (intro released [of ?c]) simp_all
  qed
qed

lemma lockInfo_state: "snd (snd (lockInfo e p out st)) = st"
  by (simp add: lockInfo_def Let_def QLockFile_new_def QLockFile_delete_unlocked split: sum.splits)

lemma consistent_tryLock:
  assumes "consistent e st"
  shows "consistent e (snd (tryLock e p st))"
proof -
  obtain b st' where t: "tryLock e p st = (b, st')" by (cases "tryLock e p st")
  from t show ?thesis
  proof (cases rule: tryLock_cases)
    case failed
    with t assms show ?thesis by simp
  next
    case held
    with t assms show ?thesis by simp
  next
    case (acquired c)
    with assms have "consistent e st'"
      unfolding consistent_def by (auto simp: own_marker_def)
    with t show ?thesis by simp
  qed
qed

lemma consistent_unlock:
  assumes "consistent e st"
  shows "consistent e (unlock e p st)"
proof -
  from refl assms show ?thesis
  proof (cases rule: unlock_cases [of e p st "unlock e p st"])
    case noop
    with assms show ?thesis by simp
  next
    case (released c)
    with assms have "consistent e (unlock e p st)"
      unfolding consistent_def by (auto split: if_splits)
    then show ?thesis .
  qed
qed

lemma reachable_consistent: "reachable e st \<Longrightarrow> consistent e st"
proof (induction rule: reachable.induct)
  case (reachable_init d)
  show ?case by (simp add: consistent_def)
next
  case (reachable_tryLock st p)
  from reachable_tryLock.IH show ?case by (rule consistent_tryLock)
next
  case (reachable_unlock st p)
  from reachable_unlock.IH show ?case by (rule consistent_unlock)
next
  case (reachable_lockInfo st p out)
  then show ?case by (simp add: lockInfo_state)
qed

lemma consistent_entry:
  assumes "consistent e st" "s_locks st k = Some lf"
  shows "k \<noteq> []" "lf = held_handle k" "writable e (k @ ''.lock'')"
    "\<exists>f. files st (k @ ''.lock'') = Some f \<and> holder f = Some (own_info e)"
  using assms unfolding consistent_def by blast+

lemma reachable_no_empty_key:
  assumes "reachable e st"
  shows "\<not> contains (s_locks st) []"
proof
  assume "contains (s_locks st) []"
  then obtain lf where "s_locks st [] = Some lf" by (auto simp: contains_def)
  from consistent_entry(1) [OF reachable_consistent [OF assms] this] show False by simp
qed

lemma tryLock_twice: "tryLock e p (snd (tryLock e p st)) = tryLock e p st"
proof -
  obtain b st' where t: "tryLock e p st = (b, st')" by (cases "tryLock e p st")
  from t show ?thesis
  proof (cases rule: tryLock_cases)
    case failed
    with t show ?thesis by simp
  next
    case held
    with t show ?thesis by simp
  next
    case (acquired c)
    then have "tryLock e p st' = (True, st')"
      by (simp add: tryLock_def contains_def Let_def)
    with t acquired(1) show ?thesis by simp
  qed
qed

text \<open>
  A path is held from the call of tryLock that returned true until unlock is called on a
  path with the same canonical form.
\<close>

lemma tryLock_holds:
  assumes "tryLock e p st = (True, st')"
  shows "isLocked e p st'"
  using assms by (cases rule: tryLock_cases) (simp_all add: isLocked_def contains_def)

lemma held_after_tryLock:
  assumes "isLocked e p st"
  shows "isLocked e p (snd (tryLock e q st))"
proof -
  obtain b st' where t: "tryLock e q st = (b, st')" by (cases "tryLock e q st")
  from t have "isLocked e p st'"
    by (cases rule: tryLock_cases) (use assms in \<open>simp_all add: isLocked_def contains_def\<close>)
  with t show ?thesis by simp
qed

lemma held_after_unlock:
  assumes "isLocked e p st" "canonicalFilePath e q \<noteq> canonicalFilePath e p"
  shows "isLocked e p (unlock e q st)"
  using assms
  by (simp add: unlock_def isLocked_def contains_def Let_def split: option.splits prod.splits)

text \<open>
  With a positive stale time the handle does break a marker of another host by its age;
  the registry never asks for that, since it sets the stale time to \<open>0\<close>.
\<close>

lemma QLockFile_tryLock_foreign_host:
  assumes "d (lf_fileName lf) = Some f" "holder f = Some i"
    "holder_hostname i \<noteq> machineHostName e" "writable e (lf_fileName lf)"
  shows "QLockFile_tryLock e lf d =
          (if 0 < lf_staleLockTime lf \<and> lf_staleLockTime lf < currentTime e - mtime f
           then (Inr (lf\<lparr>lf_isLocked := True\<rparr>),
                 d(lf_fileName lf \<mapsto> \<lparr>holder = Some (own_info e), mtime = currentTime e\<rparr>))
           else (Inl AlreadyLocked, d))"
  using assms
  by (auto simp: QLockFile_tryLock_def create_exclusive_def remove_file_def is_stale_def
      age_stale_def)

text \<open>
  With the stale time \<open>0\<close> of the registry a marker of another host is never broken,
  whatever its age: \<open>tryLock\<close> returns false and changes nothing.
\<close>

lemma tryLock_foreign_host_refused:
  assumes "reachable e st" "canonicalFilePath e p = c" "c \<noteq> []"
    and "files st (c @ ''.lock'') = Some f" "holder f = Some i"
    and "holder_hostname i \<noteq> machineHostName e"
  shows "lf_staleLockTime (fresh_handle c) = 0 \<and> tryLock e p st = (False, st)"
proof -
  have nc: "\<not> contains (s_locks st) c"
  proof
    assume "contains (s_locks st) c"
    then obtain lf where "s_locks st c = Some lf" by (auto simp: contains_def)
    from consistent_entry(4) [OF reachable_consistent [OF assms(1)] this] assms(4)
    have "holder f = Some (own_info e)" by auto
    with assms(5) have "i = own_info e" by simp
    then have "holder_hostname i = machineHostName e" by (simp add: own_info_def)
    with assms(6) show False by simp
  qed
  from assms(4-6) have "\<not> is_stale e (fresh_handle c) (files st)"
    by (simp add: is_stale_fresh)
  with assms(4)
  have "QLockFile_tryLock e (fresh_handle c) (files st) = (Inl AlreadyLocked, files st)"
    by (simp add: QLockFile_tryLock_live)
  with nc assms(2) assms(3) show ?thesis
    by (simp add: tryLock_def fresh_handle_def [symmetric] QLockFile_delete_unlocked)
qed

subsection \<open>A changing environment\<close>

lemma marked_entry:
  assumes "marked me st" "s_locks st k = Some lf"
  shows "k \<noteq> []" "lf = held_handle k"
    "\<exists>f. files st (k @ ''.lock'') = Some f \<and> holder f = Some me"
  using assms unfolding marked_def by blast+

lemma marked_tryLock:
  assumes "marked me st" "own_info e = me"
  shows "marked me (snd (tryLock e p st))"
proof -
  obtain b st' where t: "tryLock e p st = (b, st')" by (cases "tryLock e p st")
  from t show ?thesis
  proof (cases rule: tryLock_cases)
    case failed
    with t assms show ?thesis by simp
  next
    case held
    with t assms show ?thesis by simp
  next
    case (acquired c)
    with assms have "marked me st'"
      unfolding marked_def by (auto simp: own_marker_def)
    with t show ?thesis by simp
  qed
qed

text \<open>The ways a call of unlock can end when the environment may have changed.\<close>

lemma unlock_cases_env:
  assumes "unlock e p st = st'" "marked me st"
  obtains
    (noop) "st' = st"
      "canonicalFilePath e p = [] \<or> \<not> contains (s_locks st) (canonicalFilePath e p)"
  | (released) c where "c = canonicalFilePath e p" "c \<noteq> []" "contains (s_locks st) c"
      "writable e (c @ ''.lock'')"
      "st' = st\<lparr>s_locks := (s_locks st)(c := None), files := (files st)(c @ ''.lock'' := None)\<rparr>"
  | (refused) c where "c = canonicalFilePath e p" "c \<noteq> []" "contains (s_locks st) c"
      "\<not> writable e (c @ ''.lock'')"
      "st' = st\<lparr>s_locks := (s_locks st)(c := None)\<rparr>"
proof -
  let ?c = "canonicalFilePath e p"
  show thesis
  proof (cases "?c = [] \<or> \<not> contains (s_locks st) ?c")
    case True
    with assms(1) have "st' = st" by (auto simp: unlock_def Let_def)
    from this True show ?thesis by (rule noop)
  next
    case False
    then obtain lf where lf: "s_locks st ?c = Some lf" by (auto simp: contains_def)
    from marked_entry(2) [OF assms(2) lf] have h: "lf = held_handle ?c" .
    show ?thesis
    proof (cases "writable e (?c @ ''.lock'')")
      case True
      with False lf h assms(1)
      have "st' = st\<lparr>s_locks := (s_locks st)(?c := None),
                      files := (files st)(?c @ ''.lock'' := None)\<rparr>"
        by (auto simp: unlock_def Let_def QLockFile_unlock_def remove_file_def held_handle_def
            QLockFile_delete_def)
      with False True show ?thesis by (intro released [of ?c]) simp_all
    next
      case nw: False
      with False lf h assms(1)
      have "st' = st\<lparr>s_locks := (s_locks st)(?c := None)\<rparr>"
        by (auto simp: unlock_def Let_def QLockFile_unlock_def remove_file_def held_handle_def
            QLockFile_delete_def)
      with False nw show ?thesis by (intro refused [of ?c]) simp_all
    qed
  qed
qed

lemma marked_unlock:
  assumes "marked me st"
  shows "marked me (unlock e p st)"
proof -
  from refl assms show ?thesis
  proof (cases rule: unlock_cases_env [of e p st "unlock e p st"])
    case noop
    with assms show ?thesis by simp
  next
    case (released c)
    with assms have "marked me (unlock e p st)"
      unfolding marked_def by (auto split: if_splits)
    then show ?thesis .
  next
    case (refused c)
    with assms have "marked me (unlock e p st)"
      unfolding marked_def by (auto split: if_splits)
    then show ?thesis .
  qed
qed

lemma reachable_env_marked: "reachable_env me st \<Longrightarrow> marked me st"
proof (induction rule: reachable_env.induct)
  case (env_init d)
  show ?case by (simp add: marked_def)
next
  case (env_tryLock st e p)
  from env_tryLock.IH env_tryLock.hyps(2) show ?case by (rule marked_tryLock)
next
  case (env_unlock st e p)
  from env_unlock.IH show ?case by (rule marked_unlock)
next
  case (env_lockInfo st e p out)
  then show ?case by (simp add: lockInfo_state)
qed

lemma reachable_reachable_env: "reachable e st \<Longrightarrow> reachable_env (own_info e) st"
  by (induction rule: reachable.induct) (auto intro: reachable_env.intros)

text \<open>
  A canonical path stays a key of the table from the call of tryLock that entered it
  until unlock is called on a path that has this canonical form at the time of the call,
  whatever happens to the environment in between.
\<close>

lemma tryLock_enters_key:
  assumes "tryLock e p st = (True, st')"
  shows "contains (s_locks st') (canonicalFilePath e p)"
  using assms by (cases rule: tryLock_cases) (simp_all add: contains_def)

lemma key_after_tryLock:
  assumes "contains (s_locks st) k"
  shows "contains (s_locks (snd (tryLock e q st))) k"
proof -
  obtain b st' where t: "tryLock e q st = (b, st')" by (cases "tryLock e q st")
  from t have "contains (s_locks st') k"
    by (cases rule: tryLock_cases) (use assms in \<open>simp_all add: contains_def\<close>)
  with t show ?thesis by simp
qed

lemma key_after_unlock:
  assumes "contains (s_locks st) k" "canonicalFilePath e q \<noteq> k"
  shows "contains (s_locks (unlock e q st)) k"
  using assms
  by (simp add: unlock_def contains_def Let_def split: option.splits prod.splits)

subsection \<open>Two registries\<close>

lemma state_eta [simp]: "\<lparr>s_locks = s_locks st, files = files st\<rparr> = (st::state)"
  by (cases st) simp

lemma exclusive_sym: "exclusive e1 e2 t1 t2 d \<Longrightarrow> exclusive e2 e1 t2 t1 d"
  by (auto simp: exclusive_def)

text \<open>A marker of a live holder is not stale for the other process.\<close>

lemma held_not_stale:
  assumes "consistent e2 \<lparr>s_locks = t2, files = d\<rparr>" "contains t2 c" "sees_alive e1 e2"
  shows "d (c @ ''.lock'') \<noteq> None" "\<not> is_stale e1 (fresh_handle c) d"
proof -
  from assms(2) obtain lf where "t2 c = Some lf" by (auto simp: contains_def)
  with assms(1) obtain f where f: "d (c @ ''.lock'') = Some f" "holder f = Some (own_info e2)"
    by (auto simp: consistent_def)
  then show "d (c @ ''.lock'') \<noteq> None" by simp
  from f assms(3) show "\<not> is_stale e1 (fresh_handle c) d"
    by (auto simp: is_stale_fresh own_info_def sees_alive_def split: if_splits)
qed

lemma tryLock_held_elsewhere:
  assumes "consistent e2 \<lparr>s_locks = t2, files = files st\<rparr>" "contains t2 (canonicalFilePath e1 p)"
    "sees_alive e1 e2" "\<not> contains (s_locks st) (canonicalFilePath e1 p)"
  shows "tryLock e1 p st = (False, st)"
proof -
  obtain b st' where t: "tryLock e1 p st = (b, st')" by (cases "tryLock e1 p st")
  from t show ?thesis
  proof (cases rule: tryLock_cases)
    case failed
    with t show ?thesis by simp
  next
    case held
    with assms(4) show ?thesis by simp
  next
    case (acquired c)
    with held_not_stale [OF assms(1) assms(2) assms(3)] show ?thesis by simp
  qed
qed

lemma exclusive_tryLock:
  assumes "exclusive e1 e2 t1 t2 d" "sees_alive e1 e2"
    and st': "st' = snd (tryLock e1 p \<lparr>s_locks = t1, files = d\<rparr>)"
  shows "exclusive e1 e2 (s_locks st') t2 (files st')"
proof -
  let ?st = "\<lparr>s_locks = t1, files = d\<rparr>"
  from assms(1) have c1: "consistent e1 ?st" and c2: "consistent e2 \<lparr>s_locks = t2, files = d\<rparr>"
    and ex: "\<And>k. contains t1 k \<Longrightarrow> \<not> contains t2 k"
    by (auto simp: exclusive_def)
  obtain b where t: "tryLock e1 p ?st = (b, st')" using st' by (cases "tryLock e1 p ?st") simp
  from t show ?thesis
  proof (cases rule: tryLock_cases)
    case failed
    with assms(1) show ?thesis by simp
  next
    case held
    with assms(1) show ?thesis by simp
  next
    case (acquired c)
    have nc: "\<not> contains t2 c"
    proof
      assume "contains t2 c"
      from held_not_stale [OF c2 this assms(2)] acquired(6) show False by simp
    qed
    from c1 have "consistent e1 st'" using consistent_tryLock [of e1 ?st p] t by simp
    moreover from c2 nc acquired(7) have "consistent e2 \<lparr>s_locks = t2, files = files st'\<rparr>"
      unfolding consistent_def by (auto simp: contains_def)
    moreover from ex nc acquired(7) have "\<And>k. contains (s_locks st') k \<Longrightarrow> \<not> contains t2 k"
      by (auto simp: contains_def split: if_splits)
    ultimately show ?thesis
      unfolding exclusive_def by simp
  qed
qed

lemma exclusive_unlock:
  assumes "exclusive e1 e2 t1 t2 d"
    and st': "st' = unlock e1 p \<lparr>s_locks = t1, files = d\<rparr>"
  shows "exclusive e1 e2 (s_locks st') t2 (files st')"
proof -
  let ?st = "\<lparr>s_locks = t1, files = d\<rparr>"
  from assms(1) have c1: "consistent e1 ?st" and c2: "consistent e2 \<lparr>s_locks = t2, files = d\<rparr>"
    and ex: "\<And>k. contains t1 k \<Longrightarrow> \<not> contains t2 k"
    by (auto simp: exclusive_def)
  from st' [symmetric] c1 show ?thesis
  proof (cases rule: unlock_cases)
    case noop
    with assms(1) show ?thesis by simp
  next
    case (released c)
    from ex released(3) have nc: "\<not> contains t2 c" by simp
    from c1 have "consistent e1 st'" using consistent_unlock [of e1 ?st p] st' by simp
    moreover from c2 nc released(4) have "consistent e2 \<lparr>s_locks = t2, files = files st'\<rparr>"
      unfolding consistent_def by (auto simp: contains_def)
    moreover from ex released(4) have "\<And>k. contains (s_locks st') k \<Longrightarrow> \<not> contains t2 k"
      by (auto simp: contains_def split: if_splits)
    ultimately show ?thesis
      unfolding exclusive_def by simp
  qed
qed

lemma sys_reachable_exclusive:
  assumes "sys_reachable eA eB s" "sees_alive eA eB" "sees_alive eB eA"
  shows "exclusive eA eB (table_A s) (table_B s) (shared s)"
  using assms(1)
proof (induction rule: sys_reachable.induct)
  case (sys_init d)
  show ?case by (simp add: exclusive_def consistent_def contains_def)
next
  case (A_tryLock s p)
  from exclusive_tryLock [OF A_tryLock.IH assms(2) refl, of p]
  show ?case by (simp add: put_A_def view_A_def)
next
  case (A_unlock s p)
  from exclusive_unlock [OF A_unlock.IH refl, of p]
  show ?case by (simp add: put_A_def view_A_def)
next
  case (B_tryLock s p)
  from exclusive_sym [OF exclusive_tryLock [OF exclusive_sym [OF B_tryLock.IH] assms(3) refl, of p]]
  show ?case by (simp add: put_B_def view_B_def)
next
  case (B_unlock s p)
  from exclusive_sym [OF exclusive_unlock [OF exclusive_sym [OF B_unlock.IH] refl, of p]]
  show ?case by (simp add: put_B_def view_B_def)
next
  case (A_lockInfo s p out)
  then show ?case by (simp add: put_A_def view_A_def lockInfo_state)
next
  case (B_lockInfo s p out)
  then show ?case by (simp add: put_B_def view_B_def lockInfo_state)
qed

subsection \<open>Evaluation of the examples\<close>

lemmas eval_defs =
  tryLock_def unlock_def isLocked_def lockInfo_def contains_def Let_def
  QLockFile_tryLock_def QLockFile_unlock_def QLockFile_delete_def QLockFile_getLockInfo_def
  QLockFile_new_def setStaleLockTime_def create_exclusive_def remove_file_def
  is_stale_def age_stale_def own_info_def

lemma sys1_value:
  "sys1 = \<lparr>table_A = [''/d/a.qet'' \<mapsto> held_handle ''/d/a.qet''], table_B = Map.empty,
           shared = [''/d/a.qet.lock'' \<mapsto> own_marker proc_A]\<rparr>"
  by (simp add: sys1_def sys0_def put_A_def view_A_def eval_defs proc_A_def canon_def
      held_handle_def own_marker_def)

lemma st_held_value:
  "st_held = \<lparr>s_locks = [''/d/a.qet'' \<mapsto> held_handle ''/d/a.qet''],
              files = [''/d/a.qet.lock'' \<mapsto> own_marker proc_A]\<rparr>"
  by (simp add: st_held_def no_locks_def eval_defs proc_A_def canon_def
      held_handle_def own_marker_def)

lemma st_held_reachable: "reachable proc_A st_held"
  unfolding st_held_def no_locks_def by (rule reachable_tryLock [OF reachable_init])

lemma st_stale_reachable: "reachable proc_A st_stale"
  unfolding st_stale_def by (rule reachable_init)

lemma st_foreign_reachable: "reachable proc_A st_foreign"
  unfolding st_foreign_def by (rule reachable_init)

lemma st_held_reachable_env: "reachable_env (own_info proc_A) st_held"
  by (rule reachable_reachable_env [OF st_held_reachable])

text \<open>
  The scenario of the spec: \<open>A\<close> acquires, \<open>B\<close> is refused and reads the holder, \<open>A\<close>
  releases, \<open>B\<close> acquires.
\<close>

lemma scenario_handover:
  "tryLock proc_A ''a.qet'' no_locks = (True, st_held)"
  "tryLock proc_B ''a.qet'' \<lparr>s_locks = Map.empty, files = files st_held\<rparr> =
     (False, \<lparr>s_locks = Map.empty, files = files st_held\<rparr>)"
  "lockInfo proc_B ''a.qet'' out0 \<lparr>s_locks = Map.empty, files = files st_held\<rparr> =
     (True, own_info proc_A, \<lparr>s_locks = Map.empty, files = files st_held\<rparr>)"
  "unlock proc_A ''a.qet'' st_held = no_locks"
  "tryLock proc_B ''a.qet'' no_locks =
     (True, \<lparr>s_locks = [''/d/a.qet'' \<mapsto> held_handle ''/d/a.qet''],
             files = [''/d/a.qet.lock'' \<mapsto> own_marker proc_B]\<rparr>)"
  by (simp_all add: st_held_value no_locks_def eval_defs proc_A_def proc_B_def canon_def
      held_handle_def own_marker_def)

section \<open>The claims\<close>

text \<open>
  Claim C1 (mutual exclusion). Two registries \<open>A\<close> and \<open>B\<close> work on the same marker
  files, each process finding the other alive when both run on one host. In every state
  they can reach, no canonical path is a key of both tables; and while one registry has
  a path in its table (its \<open>tryLock\<close> returned true and it has not called \<open>unlock\<close>
  since), \<open>tryLock\<close> from the other registry on a path with that canonical form
  returns false and changes nothing.
\<close>

theorem mutual_exclusion:
  assumes "sys_reachable eA eB s" "sees_alive eA eB" "sees_alive eB eA"
  shows "\<not> (contains (table_A s) k \<and> contains (table_B s) k) \<and>
         (contains (table_A s) (canonicalFilePath eB p) \<longrightarrow>
            tryLock eB p (view_B s) = (False, view_B s)) \<and>
         (contains (table_B s) (canonicalFilePath eA p) \<longrightarrow>
            tryLock eA p (view_A s) = (False, view_A s))"
proof -
  from sys_reachable_exclusive [OF assms]
  have cA: "consistent eA \<lparr>s_locks = table_A s, files = shared s\<rparr>"
    and cB: "consistent eB \<lparr>s_locks = table_B s, files = shared s\<rparr>"
    and ex: "\<And>k. \<not> (contains (table_A s) k \<and> contains (table_B s) k)"
    by (auto simp: exclusive_def)
  have "tryLock eB p (view_B s) = (False, view_B s)"
    if "contains (table_A s) (canonicalFilePath eB p)"
    using tryLock_held_elsewhere [of eA "table_A s" "view_B s" eB p] cA that assms(3) ex
    by (auto simp: view_B_def)
  moreover
  have "tryLock eA p (view_A s) = (False, view_A s)"
    if "contains (table_B s) (canonicalFilePath eA p)"
    using tryLock_held_elsewhere [of eB "table_B s" "view_A s" eA p] cB that assms(2) ex
    by (auto simp: view_A_def)
  ultimately show ?thesis using ex by blast
qed

theorem mutual_exclusion_witness:
  "sys_reachable proc_A proc_B sys1 \<and> sees_alive proc_A proc_B \<and> sees_alive proc_B proc_A \<and>
   contains (table_A sys1) (canonicalFilePath proc_B ''/d/a.qet'') \<and>
   tryLock proc_B ''/d/a.qet'' (view_B sys1) = (False, view_B sys1)"
proof -
  have r: "sys_reachable proc_A proc_B sys1"
    unfolding sys1_def sys0_def by (rule A_tryLock [OF sys_init])
  have a: "sees_alive proc_A proc_B" and b: "sees_alive proc_B proc_A"
    by (simp_all add: sees_alive_def proc_A_def proc_B_def)
  have c: "contains (table_A sys1) (canonicalFilePath proc_B ''/d/a.qet'')"
    by (simp add: sys1_value contains_def proc_B_def canon_def)
  from mutual_exclusion [OF r a b, of "''/d/a.qet''" "''/d/a.qet''"] c r a b
  show ?thesis by blast
qed

text \<open>
  Claim C2 (idempotent re-entry). On a path whose canonicalisation succeeds, a second
  \<open>tryLock\<close> returns what the first returned and leaves the state the first left.
  So when the first call has returned true, the second returns true and changes
  nothing: the table still has the canonical key, and the disk still has the one marker
  \<open><canonical>.lock\<close>, recording this process.
\<close>

theorem tryLock_idempotent:
  assumes "reachable e st" "canonicalFilePath e p \<noteq> []"
  shows "tryLock e p (snd (tryLock e p st)) = tryLock e p st \<and>
         (tryLock e p st = (True, st1) \<longrightarrow>
            tryLock e p st1 = (True, st1) \<and>
            contains (s_locks st1) (canonicalFilePath e p) \<and>
            (\<exists>f. files st1 (canonicalFilePath e p @ ''.lock'') = Some f \<and>
                 holder f = Some (own_info e)))"
proof (intro conjI impI)
  show "tryLock e p (snd (tryLock e p st)) = tryLock e p st" by (rule tryLock_twice)
next
  assume t: "tryLock e p st = (True, st1)"
  from tryLock_twice [of e p st] t show "tryLock e p st1 = (True, st1)" by simp
  from assms(1) have "reachable e (snd (tryLock e p st))" by (rule reachable_tryLock)
  with t have c: "consistent e st1" by (simp add: reachable_consistent)
  from t show key: "contains (s_locks st1) (canonicalFilePath e p)"
    by (cases rule: tryLock_cases) (simp_all add: contains_def)
  then obtain lf where "s_locks st1 (canonicalFilePath e p) = Some lf"
    by (auto simp: contains_def)
  with c show "\<exists>f. files st1 (canonicalFilePath e p @ ''.lock'') = Some f \<and>
      holder f = Some (own_info e)"
    by (rule consistent_entry(4))
qed

theorem tryLock_idempotent_witness:
  "reachable proc_A no_locks \<and> canonicalFilePath proc_A ''a.qet'' \<noteq> [] \<and>
   tryLock proc_A ''a.qet'' no_locks = (True, st_held) \<and>
   tryLock proc_A ''a.qet'' st_held = (True, st_held) \<and>
   contains (s_locks st_held) ''/d/a.qet'' \<and>
   files st_held ''/d/a.qet.lock'' = Some (own_marker proc_A)"
proof -
  have r: "reachable proc_A no_locks" unfolding no_locks_def by (rule reachable_init)
  have c: "canonicalFilePath proc_A ''a.qet'' \<noteq> []" by (simp add: proc_A_def canon_def)
  have t: "tryLock proc_A ''a.qet'' no_locks = (True, st_held)"
    by (simp add: st_held_value) (simp add: no_locks_def eval_defs proc_A_def canon_def
      held_handle_def own_marker_def)
  from tryLock_idempotent [OF r c, of st_held] r c t show ?thesis
    by (simp add: st_held_value contains_def)
qed




text \<open>
  Claim C4 (stale recovery). When the marker of a path records the local host name and a
  process id that is not alive, and the file system lets the caller delete and create
  the marker, \<open>tryLock\<close> returns true, enters the path in the table and replaces the
  marker by one that records the caller.
\<close>

theorem stale_recovery:
  assumes "reachable e st" "isProcessRunning e (applicationPid e)"
    and "canonicalFilePath e p = c" "c \<noteq> []" "writable e (c @ ''.lock'')"
    and "files st (c @ ''.lock'') = Some f" "holder f = Some i"
    and "holder_hostname i = machineHostName e" "\<not> isProcessRunning e (holder_pid i)"
  shows "tryLock e p st =
           (True, st\<lparr>s_locks := (s_locks st)(c \<mapsto> held_handle c),
                      files := (files st)(c @ ''.lock'' \<mapsto> own_marker e)\<rparr>)"
proof -
  have nc: "\<not> contains (s_locks st) c"
  proof
    assume "contains (s_locks st) c"
    then obtain lf where "s_locks st c = Some lf" by (auto simp: contains_def)
    from consistent_entry(4) [OF reachable_consistent [OF assms(1)] this] assms(6)
    have "holder f = Some (own_info e)" by auto
    with assms(7) have "i = own_info e" by simp
    then have "holder_pid i = applicationPid e" by (simp add: own_info_def)
    with assms(2) assms(9) show False by simp
  qed
  from assms(6-9) have "is_stale e (fresh_handle c) (files st)"
    by (simp add: is_stale_fresh)
  with assms(5) assms(6)
  have "QLockFile_tryLock e (fresh_handle c) (files st) =
          (Inr (held_handle c), (files st)(c @ ''.lock'' \<mapsto> own_marker e))"
    by (simp add: QLockFile_tryLock_stale own_marker_def)
  with nc assms(3) assms(4) show ?thesis
    by (simp add: tryLock_def fresh_handle_def [symmetric])
qed

theorem stale_recovery_witness:
  "reachable proc_A st_stale \<and> isProcessRunning proc_A (applicationPid proc_A) \<and>
   canonicalFilePath proc_A ''a.qet'' = ''/d/a.qet'' \<and>
   files st_stale ''/d/a.qet.lock'' = Some stale_marker \<and>
   holder_hostname (the (holder stale_marker)) = machineHostName proc_A \<and>
   \<not> isProcessRunning proc_A (holder_pid (the (holder stale_marker))) \<and>
   tryLock proc_A ''a.qet'' st_stale = (True, st_held)"
proof -
  have 1: "isProcessRunning proc_A (applicationPid proc_A)" by (simp add: proc_A_def)
  have 2: "canonicalFilePath proc_A ''a.qet'' = ''/d/a.qet''" by (simp add: proc_A_def canon_def)
  have 3: "''/d/a.qet'' \<noteq> []" by simp
  have 4: "writable proc_A (''/d/a.qet'' @ ''.lock'')" by (simp add: proc_A_def)
  have 5: "files st_stale (''/d/a.qet'' @ ''.lock'') = Some stale_marker" by (simp add: st_stale_def)
  have 6: "holder stale_marker =
      Some \<lparr>holder_pid = 999999, holder_hostname = ''alpha'', holder_app_id = ''qet''\<rparr>"
    by (simp add: stale_marker_def)
  have 7: "holder_hostname \<lparr>holder_pid = 999999, holder_hostname = ''alpha'', holder_app_id = ''qet''\<rparr>
      = machineHostName proc_A" by (simp add: proc_A_def)
  have 8: "\<not> isProcessRunning proc_A
      (holder_pid \<lparr>holder_pid = 999999, holder_hostname = ''alpha'', holder_app_id = ''qet''\<rparr>)"
    by (simp add: proc_A_def)
  from stale_recovery [OF st_stale_reachable 1 2 3 4 5 6 7 8] st_stale_reachable 1 2 5 6 7 8
  show ?thesis
    by (simp add: st_held_value st_stale_def)
qed


text \<open>
  Claim C6 (failure changes nothing). \<open>tryLock\<close> returns false, with the state as it
  was, when the canonicalisation fails and when the lock handle reports an error (a live
  holder or an I/O error); and whenever \<open>tryLock\<close> returns false the table
  \<open>s_locks\<close> is the one from before the call. The result is a plain flag: no error
  leaves the function.
\<close>

theorem tryLock_failure:
  "(canonicalFilePath e p = [] \<longrightarrow> tryLock e p st = (False, st)) \<and>
   (canonicalFilePath e p \<noteq> [] \<and> \<not> contains (s_locks st) (canonicalFilePath e p) \<and>
    fst (QLockFile_tryLock e (fresh_handle (canonicalFilePath e p)) (files st)) = Inl err
      \<longrightarrow> tryLock e p st = (False, st)) \<and>
   (\<not> fst (tryLock e p st) \<longrightarrow> s_locks (snd (tryLock e p st)) = s_locks st)"
proof (intro conjI impI)
  assume "canonicalFilePath e p = []"
  then show "tryLock e p st = (False, st)" by (simp add: tryLock_def)
next
  assume a: "canonicalFilePath e p \<noteq> [] \<and> \<not> contains (s_locks st) (canonicalFilePath e p) \<and>
    fst (QLockFile_tryLock e (fresh_handle (canonicalFilePath e p)) (files st)) = Inl err"
  obtain d' where r: "QLockFile_tryLock e (fresh_handle (canonicalFilePath e p)) (files st) = (Inl err, d')"
    using a by (cases "QLockFile_tryLock e (fresh_handle (canonicalFilePath e p)) (files st)") simp
  from QLockFile_tryLock_Inl(1) [OF r] have "d' = files st" .
  with a r show "tryLock e p st = (False, st)"
    by (simp add: tryLock_def fresh_handle_def [symmetric] QLockFile_delete_unlocked)
next
  assume f: "\<not> fst (tryLock e p st)"
  obtain b st' where t: "tryLock e p st = (b, st')" by (cases "tryLock e p st")
  from t f have nb: "\<not> b" by simp
  from t have "st' = st" by (cases rule: tryLock_cases) (use nb in simp_all)
  with t show "s_locks (snd (tryLock e p st)) = s_locks st" by simp
qed

theorem tryLock_failure_witness:
  "canonicalFilePath proc_A ''nowhere'' = [] \<and>
   tryLock proc_A ''nowhere'' st_held = (False, st_held) \<and>
   fst (QLockFile_tryLock proc_A (fresh_handle ''/d/a.qet'') (files st_foreign)) = Inl AlreadyLocked \<and>
   tryLock proc_A ''a.qet'' st_foreign = (False, st_foreign) \<and>
   fst (QLockFile_tryLock proc_ro (fresh_handle ''/d/a.qet'') (files no_locks)) = Inl IoFailure \<and>
   tryLock proc_ro ''a.qet'' no_locks = (False, no_locks) \<and>
   s_locks (snd (tryLock proc_ro ''a.qet'' no_locks)) = s_locks no_locks"
proof -
  have 1: "canonicalFilePath proc_A ''nowhere'' = []" by (simp add: proc_A_def canon_def)
  have 2: "canonicalFilePath proc_A ''a.qet'' \<noteq> [] \<and>
      \<not> contains (s_locks st_foreign) (canonicalFilePath proc_A ''a.qet'') \<and>
      fst (QLockFile_tryLock proc_A (fresh_handle (canonicalFilePath proc_A ''a.qet''))
        (files st_foreign)) = Inl AlreadyLocked"
    by (simp add: st_foreign_def foreign_marker_def proc_A_def canon_def eval_defs fresh_handle_def)
  have 3: "canonicalFilePath proc_ro ''a.qet'' \<noteq> [] \<and>
      \<not> contains (s_locks no_locks) (canonicalFilePath proc_ro ''a.qet'') \<and>
      fst (QLockFile_tryLock proc_ro (fresh_handle (canonicalFilePath proc_ro ''a.qet''))
        (files no_locks)) = Inl IoFailure"
    by (simp add: no_locks_def proc_ro_def proc_A_def canon_def eval_defs fresh_handle_def)
  have 4: "canonicalFilePath proc_A ''a.qet'' = ''/d/a.qet''"
    "canonicalFilePath proc_ro ''a.qet'' = ''/d/a.qet''"
    by (simp_all add: proc_ro_def proc_A_def canon_def)
  from tryLock_failure [of proc_A "''nowhere''" st_held]
    tryLock_failure [of proc_A "''a.qet''" st_foreign AlreadyLocked]
    tryLock_failure [of proc_ro "''a.qet''" no_locks IoFailure] 1 2 3
  show ?thesis by (simp add: 4)
qed

text \<open>
  Claim C7 (the query is a pure read). \<open>lockInfo\<close> leaves the state as it is, for
  every path, held or not: the marker \<open><canonical>.lock\<close> and the table are unchanged,
  and a following \<open>tryLock\<close>, by this process or by any other process with any table
  of its own, has the outcome it would have had without the query.
\<close>

theorem lockInfo_pure_read:
  "snd (snd (lockInfo e p out st)) = st \<and>
   files (snd (snd (lockInfo e p out st))) (canonicalFilePath e p @ ''.lock'') =
     files st (canonicalFilePath e p @ ''.lock'') \<and>
   s_locks (snd (snd (lockInfo e p out st))) = s_locks st \<and>
   tryLock e p (snd (snd (lockInfo e p out st))) = tryLock e p st \<and>
   tryLock e' p' \<lparr>s_locks = t', files = files (snd (snd (lockInfo e p out st)))\<rparr> =
     tryLock e' p' \<lparr>s_locks = t', files = files st\<rparr>"
  by (simp add: lockInfo_state)

theorem lockInfo_pure_read_witness:
  "\<not> isLocked proc_B ''a.qet'' st_foreign \<and>
   lockInfo proc_B ''a.qet'' out0 st_foreign =
     (True, \<lparr>holder_pid = 7, holder_hostname = ''beta'', holder_app_id = ''qet''\<rparr>, st_foreign) \<and>
   snd (snd (lockInfo proc_B ''a.qet'' out0 st_foreign)) = st_foreign \<and>
   tryLock proc_A ''a.qet'' (snd (snd (lockInfo proc_B ''a.qet'' out0 st_foreign))) =
     tryLock proc_A ''a.qet'' st_foreign"
proof -
  have 1: "\<not> isLocked proc_B ''a.qet'' st_foreign"
    by (simp add: isLocked_def contains_def st_foreign_def)
  have 2: "lockInfo proc_B ''a.qet'' out0 st_foreign =
     (True, \<lparr>holder_pid = 7, holder_hostname = ''beta'', holder_app_id = ''qet''\<rparr>, st_foreign)"
    by (simp add: st_foreign_def foreign_marker_def proc_B_def canon_def eval_defs)
  from lockInfo_pure_read [of proc_B "''a.qet''" out0 st_foreign proc_A "''a.qet''" Map.empty] 1 2
  show ?thesis by simp
qed

text \<open>
  Claim C8 (round trip of the holder metadata) fails on the code when the document of a
  held path is deleted: \<open>lockInfo\<close> canonicalises its argument again (line 99), the
  canonical form is empty, and \<open>lockInfo\<close> returns false (lines 100 and 101) although
  the path is held and its marker is on disk.
\<close>

theorem lockInfo_round_trip_counterexample:
  "tryLock proc_A ''a.qet'' no_locks = (True, st_held) \<and>
   own_info proc_gone = own_info proc_A \<and>
   canonicalFilePath proc_gone ''a.qet'' = [] \<and>
   contains (s_locks st_held) ''/d/a.qet'' \<and>
   files st_held ''/d/a.qet.lock'' = Some (own_marker proc_A) \<and>
   lockInfo proc_gone ''a.qet'' out0 st_held = (False, out0, st_held)"
  by (simp add: scenario_handover(1)) (simp add: st_held_value eval_defs proc_gone_def
      proc_A_def canon_def held_handle_def own_marker_def)

text \<open>
  Claim C8 as amended. For a path whose canonical form at the time of the query is a key
  of the table (\<open>isLocked\<close> answers true then), \<open>lockInfo\<close> succeeds and returns the
  process id, host name and application name that \<open>tryLock\<close> wrote into the marker:
  those of this process.
\<close>

theorem lockInfo_round_trip:
  assumes "reachable_env me st" "isLocked e p st"
  shows "lockInfo e p out st = (True, me, st)"
proof -
  let ?c = "canonicalFilePath e p"
  from assms(1) have m: "marked me st" by (rule reachable_env_marked)
  from assms(2) have k: "contains (s_locks st) ?c" by (simp add: isLocked_def)
  then obtain lf where lf: "s_locks st ?c = Some lf" by (auto simp: contains_def)
  from marked_entry(1) [OF m lf] have ne: "?c \<noteq> []" .
  from marked_entry(3) [OF m lf]
  obtain f where "files st (?c @ ''.lock'') = Some f" "holder f = Some me" by blast
  then have "QLockFile_getLockInfo (QLockFile_new (?c @ ''.lock'')) (files st) = Inr me"
    by (simp add: QLockFile_getLockInfo_def QLockFile_new_def)
  with ne show ?thesis
    by (simp add: lockInfo_def Let_def QLockFile_delete_unlocked QLockFile_new_def)
qed

theorem lockInfo_round_trip_witness:
  "reachable_env (own_info proc_A) st_held \<and> isLocked proc_ro ''a.qet'' st_held \<and>
   lockInfo proc_ro ''a.qet'' out0 st_held =
     (True, \<lparr>holder_pid = 100, holder_hostname = ''alpha'', holder_app_id = ''qet''\<rparr>, st_held)"
proof -
  have l: "isLocked proc_ro ''a.qet'' st_held"
    by (simp add: st_held_value isLocked_def contains_def proc_ro_def proc_A_def canon_def)
  from lockInfo_round_trip [OF st_held_reachable_env l, of out0] st_held_reachable_env l
  show ?thesis by (simp add: own_info_def proc_A_def)
qed

text \<open>
  Claim C9 (no empty key). The empty string is never a key of \<open>s_locks\<close>; so for a
  path whose canonicalisation fails \<open>isLocked\<close> answers false, although it does not
  test the canonical path.
\<close>

theorem no_empty_key:
  assumes "reachable e st"
  shows "\<not> contains (s_locks st) [] \<and> (canonicalFilePath e p = [] \<longrightarrow> \<not> isLocked e p st)"
  using reachable_no_empty_key [OF assms] by (simp add: isLocked_def)

theorem no_empty_key_witness:
  "reachable proc_A st_held \<and> canonicalFilePath proc_A ''nowhere'' = [] \<and>
   \<not> contains (s_locks st_held) [] \<and> \<not> isLocked proc_A ''nowhere'' st_held"
proof -
  have c: "canonicalFilePath proc_A ''nowhere'' = []" by (simp add: proc_A_def canon_def)
  from no_empty_key [OF st_held_reachable, of "''nowhere''"] st_held_reachable c
  show ?thesis by simp
qed

text \<open>
  Claim C10 (query on an invalid path). For a path whose canonicalisation fails,
  \<open>lockInfo\<close> returns false, leaves the three out-parameters as they were and the
  state as it was; the answer is the same on every disk.
\<close>

theorem lockInfo_invalid_path:
  assumes "canonicalFilePath e p = []"
  shows "lockInfo e p out st = (False, out, st) \<and>
         lockInfo e p out (st\<lparr>files := d\<rparr>) = (False, out, st\<lparr>files := d\<rparr>)"
  using assms by (simp add: lockInfo_def)

theorem lockInfo_invalid_path_witness:
  "canonicalFilePath proc_A ''nowhere'' = [] \<and>
   lockInfo proc_A ''nowhere'' out0 st_foreign = (False, out0, st_foreign) \<and>
   lockInfo proc_A ''nowhere'' out0 (st_foreign\<lparr>files := Map.empty\<rparr>) =
     (False, out0, st_foreign\<lparr>files := Map.empty\<rparr>)"
proof -
  have c: "canonicalFilePath proc_A ''nowhere'' = []" by (simp add: proc_A_def canon_def)
  from lockInfo_invalid_path [OF c, of out0 st_foreign Map.empty] c show ?thesis by simp
qed

end
